theory Spec2Isabelle
  imports Main "HOL-Library.Char_ord" "HOL-Library.List_Lexorder" "HOL-Library.Sublist"
begin

section \<open>Strings\<close>

text \<open>
  Python strings are modelled as \<^typ>\<open>string\<close>, holding the UTF-8 bytes of the text.
  Equality, emptiness, concatenation and the lexicographic order of \<open>sorted\<close> are the
  same on the bytes as on the code points.
\<close>

definition truthy :: "string option \<Rightarrow> bool" where
  \<comment> \<open>\<open>if value:\<close> for a value that is \<open>None\<close> (or an absent key read with \<open>.get\<close>) or a string\<close>
  "truthy v = (case v of None \<Rightarrow> False | Some s \<Rightarrow> s \<noteq> [])"

definition py_whitespace :: "string list" where
  \<comment> \<open>the UTF-8 encodings of the code points that \<open>str.strip()\<close> removes\<close>
  "py_whitespace =
     [[CHR 0x09], [CHR 0x0A], [CHR 0x0B], [CHR 0x0C], [CHR 0x0D],
      [CHR 0x1C], [CHR 0x1D], [CHR 0x1E], [CHR 0x1F], [CHR 0x20],
      [CHR 0xC2, CHR 0x85], [CHR 0xC2, CHR 0xA0],
      [CHR 0xE1, CHR 0x9A, CHR 0x80],
      [CHR 0xE2, CHR 0x80, CHR 0x80], [CHR 0xE2, CHR 0x80, CHR 0x81],
      [CHR 0xE2, CHR 0x80, CHR 0x82], [CHR 0xE2, CHR 0x80, CHR 0x83],
      [CHR 0xE2, CHR 0x80, CHR 0x84], [CHR 0xE2, CHR 0x80, CHR 0x85],
      [CHR 0xE2, CHR 0x80, CHR 0x86], [CHR 0xE2, CHR 0x80, CHR 0x87],
      [CHR 0xE2, CHR 0x80, CHR 0x88], [CHR 0xE2, CHR 0x80, CHR 0x89],
      [CHR 0xE2, CHR 0x80, CHR 0x8A], [CHR 0xE2, CHR 0x80, CHR 0xA8],
      [CHR 0xE2, CHR 0x80, CHR 0xA9], [CHR 0xE2, CHR 0x80, CHR 0xAF],
      [CHR 0xE2, CHR 0x81, CHR 0x9F], [CHR 0xE3, CHR 0x80, CHR 0x80]]"

fun starts_with_any :: "string list \<Rightarrow> string \<Rightarrow> nat option" where
  \<comment> \<open>the length of the first listed non-empty word that the string starts with\<close>
  "starts_with_any [] s = None"
| "starts_with_any (w # ws) s =
     (if w \<noteq> [] \<and> prefix w s then Some (length w) else starts_with_any ws s)"

lemma starts_with_any_pos: "starts_with_any ws s = Some n \<Longrightarrow> 0 < n \<and> n \<le> length s"
  by (induction ws) (auto split: if_splits simp: prefix_length_le)

function lstrip_words :: "string list \<Rightarrow> string \<Rightarrow> string" where
  "lstrip_words ws s =
     (case starts_with_any ws s of
        None \<Rightarrow> s
      | Some n \<Rightarrow> lstrip_words ws (drop n s))"
  by pat_completeness auto
termination
  by (relation "measure (\<lambda>(ws, s). length s)") (auto dest: starts_with_any_pos)

definition strip :: "string \<Rightarrow> string" where
  \<comment> \<open>\<open>s.strip()\<close>: whitespace removed at both ends\<close>
  "strip s = rev (lstrip_words (map rev py_whitespace) (rev (lstrip_words py_whitespace s)))"

definition rstrip_slash :: "string \<Rightarrow> string" where
  \<comment> \<open>\<open>s.rstrip('/')\<close>\<close>
  "rstrip_slash s = rev (dropWhile (\<lambda>c. c = CHR ''/'') (rev s))"

definition lower_char :: "char \<Rightarrow> char" where
  "lower_char c =
     (if CHR ''A'' \<le> c \<and> c \<le> CHR ''Z'' then char_of (of_char c + (32::nat)) else c)"

definition lower :: "string \<Rightarrow> string" where
  \<comment> \<open>\<open>s.lower()\<close>; only the ASCII letters matter to the two tests made on its result
      (\<open>'xml' in ...\<close> and \<open>.startswith('sitemap:')\<close>)\<close>
  "lower s = map lower_char s"

fun contains :: "string \<Rightarrow> string \<Rightarrow> bool" where
  \<comment> \<open>\<open>w in s\<close> for strings\<close>
  "contains w [] = (w = [])"
| "contains w (c # cs) = (prefix w (c # cs) \<or> contains w cs)"

fun split_on :: "char \<Rightarrow> string \<Rightarrow> string list" where
  \<comment> \<open>\<open>s.split(sep)\<close> for a one-character separator\<close>
  "split_on sep [] = [[]]"
| "split_on sep (c # cs) =
     (if c = sep then [] # split_on sep cs
      else (case split_on sep cs of
              [] \<Rightarrow> [[c]]
            | p # ps \<Rightarrow> (c # p) # ps))"

definition after_first :: "char \<Rightarrow> string \<Rightarrow> string option" where
  \<comment> \<open>\<open>s.split(sep, 1)[1]\<close>; \<open>None\<close> is the IndexError of a string without the separator\<close>
  "after_first sep s =
     (case dropWhile (\<lambda>c. c \<noteq> sep) s of [] \<Rightarrow> None | _ # rest \<Rightarrow> Some rest)"

section \<open>XML documents\<close>

text \<open>
  An element as \<open>xml.etree.ElementTree\<close> gives it: the tag (qualified as
  \<open>{namespace}name\<close>), the text before the first child (\<open>None\<close> when there is none)
  and the children in document order.
\<close>

datatype element = Element (elem_tag: string) (elem_text: "string option") (elem_children: "element list")

definition qname :: "string \<Rightarrow> string" where
  \<comment> \<open>\<open>'sitemap:name'\<close> under \<open>namespace = {'sitemap': 'http://www.sitemaps.org/schemas/sitemap/0.9'}\<close>\<close>
  "qname name = ''{http://www.sitemaps.org/schemas/sitemap/0.9}'' @ name"

definition find_elem :: "element \<Rightarrow> string \<Rightarrow> element option" where
  \<comment> \<open>\<open>elem.find(path)\<close> for a path that is one tag: the first child with that tag\<close>
  "find_elem e t = List.find (\<lambda>c. elem_tag c = t) (elem_children e)"

definition findall :: "element \<Rightarrow> string \<Rightarrow> element list" where
  \<comment> \<open>\<open>elem.findall(path)\<close> for a path that is one tag: the children with that tag\<close>
  "findall e t = filter (\<lambda>c. elem_tag c = t) (elem_children e)"

definition loc_text :: "element \<Rightarrow> string option" where
  \<comment> \<open>\<open>loc_elem = e.find('sitemap:loc', namespace)\<close>, then
      \<open>loc_elem.text.strip()\<close> if \<open>loc_elem is not None and loc_elem.text\<close>\<close>
  "loc_text e =
     (case find_elem e (qname ''loc'') of
        None \<Rightarrow> None
      | Some loc_elem \<Rightarrow>
          (case elem_text loc_elem of
             None \<Rightarrow> None
           | Some t \<Rightarrow> if t = [] then None else Some (strip t)))"

section \<open>The network\<close>

text \<open>
  A response as the code reads it: the status code, the \<open>Content-Type\<close> header
  (\<open>None\<close> when absent), the final URL, the body as text, and the body as
  \<open>ET.fromstring(response.content)\<close> parses it (\<open>None\<close> when that raises).
\<close>

record response =
  status_code :: int
  content_type :: "string option"
  resp_url :: string
  resp_text :: string
  resp_xml :: "element option"

text \<open>
  The network seen by one run. \<open>session_head url allow_redirects\<close> answers a HEAD request
  and the table \<open>pages\<close> answers GET requests; \<open>None\<close> is a
  \<open>requests.RequestException\<close>. A URL that is not in the table does not answer, so only
  finitely many URLs serve a document. \<open>urljoin\<close> is the function of \<open>urllib.parse\<close>.
\<close>

record web =
  urljoin :: "string \<Rightarrow> string \<Rightarrow> string"
  session_head :: "string \<Rightarrow> bool \<Rightarrow> response option"
  pages :: "(string \<times> response) list"

definition session_get :: "web \<Rightarrow> string \<Rightarrow> response option" where
  "session_get w u = map_of (pages w) u"

definition raise_for_status :: "response \<Rightarrow> bool" where
  \<comment> \<open>whether \<open>response.raise_for_status()\<close> raises (an HTTPError, a RequestException)\<close>
  "raise_for_status r = (400 \<le> status_code r \<and> status_code r < 600)"

section \<open>Sitemap parser\<close>

text \<open>
  The two sets of \<open>parse_sitemap\<close> that the nested function mutates, and the GET requests
  made so far, in order. The nested function catches every exception of its body, so a
  failed request or a document that does not parse ends that call and keeps what the state
  holds by then. The pause after each child of an index (\<open>time.sleep(0.5)\<close>) changes
  nothing in the state.
\<close>

record parser_state =
  all_urls :: "string set"
  visited_sitemaps :: "string set"
  requests :: "string list"

fun add_page_urls :: "element list \<Rightarrow> parser_state \<Rightarrow> parser_state" where
  \<comment> \<open>\<open>for url_elem in root.findall('sitemap:url', namespace): ... all_urls.add(url)\<close>\<close>
  "add_page_urls [] st = st"
| "add_page_urls (url_elem # rest) st =
     add_page_urls rest
       (case loc_text url_elem of
          None \<Rightarrow> st
        | Some url \<Rightarrow> st\<lparr>all_urls := insert url (all_urls st)\<rparr>)"

function (domintros) parse_sitemap_recursive :: "web \<Rightarrow> string \<Rightarrow> parser_state \<Rightarrow> parser_state"
  and parse_index_entries :: "web \<Rightarrow> element list \<Rightarrow> parser_state \<Rightarrow> parser_state"
where
  "parse_sitemap_recursive w url st =
     (if url \<in> visited_sitemaps st then st
      else
        let st1 = st\<lparr>visited_sitemaps := insert url (visited_sitemaps st),
                      requests := requests st @ [url]\<rparr>
        in (case session_get w url of
              None \<Rightarrow> st1
            | Some response \<Rightarrow>
                if raise_for_status response then st1
                else (case resp_xml response of
                        None \<Rightarrow> st1
                      | Some root \<Rightarrow>
                          if find_elem root (qname ''sitemapindex'') \<noteq> None
                          then parse_index_entries w (findall root (qname ''sitemap'')) st1
                          else add_page_urls (findall root (qname ''url'')) st1)))"
| "parse_index_entries w [] st = st"
| "parse_index_entries w (sitemap_elem # rest) st =
     parse_index_entries w rest
       (case loc_text sitemap_elem of
          None \<Rightarrow> st
        | Some sitemap_url \<Rightarrow> parse_sitemap_recursive w sitemap_url st)"
  by pat_completeness auto


text \<open>
  Termination: every recursive call of \<open>parse_sitemap_recursive\<close> that fetches a document
  adds a URL of the table to \<open>visited_sitemaps\<close>, and nothing is ever removed from it.
\<close>

lemma add_page_urls_visited: "visited_sitemaps (add_page_urls es st) = visited_sitemaps st"
  by (induction es arbitrary: st) (auto split: option.splits)

lemma visited_grows_dom:
  "parse_sitemap_recursive_parse_index_entries_dom (Inl (w, url, st)) \<Longrightarrow>
     visited_sitemaps st \<subseteq> visited_sitemaps (parse_sitemap_recursive w url st)"
  "parse_sitemap_recursive_parse_index_entries_dom (Inr (w, es, st)) \<Longrightarrow>
     visited_sitemaps st \<subseteq> visited_sitemaps (parse_index_entries w es st)"
proof (induction w url st and w es st rule: parse_sitemap_recursive_parse_index_entries.pinduct)
  case (1 w url st)
  then show ?case
    by (auto simp: parse_sitemap_recursive.psimps add_page_urls_visited Let_def
        split: option.splits if_splits)
next
  case (2 w st)
  then show ?case by (simp add: parse_index_entries.psimps)
next
  case (3 w sitemap_elem rest st)
  then show ?case
    by (auto simp: parse_index_entries.psimps split: option.splits)
qed

definition unvisited :: "web \<Rightarrow> parser_state \<Rightarrow> nat" where
  \<comment> \<open>how many URLs of the table are not yet in \<open>visited_sitemaps\<close>\<close>
  "unvisited w st = card (fst ` set (pages w) - visited_sitemaps st)"

lemma unvisited_mono:
  "visited_sitemaps st \<subseteq> visited_sitemaps st' \<Longrightarrow> unvisited w st' \<le> unvisited w st"
  unfolding unvisited_def by (intro card_mono) auto

lemma unvisited_fetch:
  assumes "session_get w url = Some r" "url \<notin> visited_sitemaps st"
  shows "unvisited w (st\<lparr>visited_sitemaps := insert url (visited_sitemaps st), requests := rq\<rparr>)
           < unvisited w st"
proof -
  from assms(1) have "url \<in> fst ` set (pages w)"
    unfolding session_get_def by (metis map_of_eq_None_iff option.distinct(1))
  with assms(2) show ?thesis
    unfolding unvisited_def by (intro psubset_card_mono) auto
qed

lemma parse_sitemap_recursive_total:
  "All parse_sitemap_recursive_parse_index_entries_dom"
proof (relation "inv_image (less_than <*lex*> less_than)
    (\<lambda>x. case x of Inl (w, url, st) \<Rightarrow> (unvisited w st, 0)
                  | Inr (w, es, st) \<Rightarrow> (unvisited w st, Suc (length es)))", goal_cases)
  case 1
  show ?case by (intro wf_inv_image wf_lex_prod wf_less_than)
next
  case (2 w url st st1 response root)
  then show ?case using unvisited_fetch by simp
next
  case (3 w sitemap_elem rest st sitemap_url)
  show ?case by simp
next
  case (4 w sitemap_elem rest st)
  have "unvisited w (case loc_text sitemap_elem of None \<Rightarrow> st
         | Some sitemap_url \<Rightarrow> parse_sitemap_recursive w sitemap_url st) \<le> unvisited w st"
  proof (cases "loc_text sitemap_elem")
    case None
    then show ?thesis by simp
  next
    case (Some sitemap_url)
    with 4 have "parse_sitemap_recursive_parse_index_entries_dom (Inl (w, sitemap_url, st))"
      by simp
    then show ?thesis
      using Some by (simp add: unvisited_mono visited_grows_dom(1))
  qed
  then show ?case by auto
qed

termination parse_sitemap_recursive
  by (rule parse_sitemap_recursive_total)

declare parse_sitemap_recursive.simps [simp del]

definition initial_state :: parser_state where
  \<comment> \<open>\<open>all_urls = set()\<close>, \<open>visited_sitemaps = set()\<close>, and no request made yet\<close>
  "initial_state = \<lparr>all_urls = {}, visited_sitemaps = {}, requests = []\<rparr>"

definition parse_sitemap :: "web \<Rightarrow> string \<Rightarrow> string set" where
  "parse_sitemap w sitemap_url = all_urls (parse_sitemap_recursive w sitemap_url initial_state)"

definition sitemap_paths :: "string list" where
  "sitemap_paths = [''/sitemap.xml'', ''/sitemap_index.xml'', ''/sitemap1.xml'']"

fun probe_paths :: "web \<Rightarrow> string \<Rightarrow> string list \<Rightarrow> string option" where
  \<comment> \<open>the first loop of \<open>find_sitemap\<close>; leaving the loop without a \<open>return\<close> is \<open>None\<close>\<close>
  "probe_paths w base_url [] = None"
| "probe_paths w base_url (path # rest) =
     (case session_head w (urljoin w base_url path) True of
        None \<Rightarrow> probe_paths w base_url rest
      | Some response \<Rightarrow>
          if status_code response = 200 \<and>
             contains ''xml'' (lower (case content_type response of None \<Rightarrow> [] | Some c \<Rightarrow> c))
          then Some (resp_url response)
          else probe_paths w base_url rest)"

fun scan_robots :: "web \<Rightarrow> string list \<Rightarrow> string option" where
  \<comment> \<open>the loop over the lines of robots.txt. A line whose lower case starts with
      \<open>sitemap:\<close> has a colon (lemma \<open>sitemap_line_has_colon\<close>), so \<open>split(':', 1)[1]\<close> never
      raises and the branch \<open>None\<close> of \<open>after_first\<close> is never taken.\<close>
  "scan_robots w [] = None"
| "scan_robots w (raw_line # rest) =
     (let line = strip raw_line in
      if prefix ''sitemap:'' (lower line)
      then (case after_first (CHR '':'') line of
              None \<Rightarrow> scan_robots w rest
            | Some directive \<Rightarrow>
                let sitemap_url = strip directive in
                (case session_head w sitemap_url False of
                   None \<Rightarrow> scan_robots w rest
                 | Some test_response \<Rightarrow>
                     if status_code test_response = 200 then Some sitemap_url
                     else scan_robots w rest))
      else scan_robots w rest)"

definition find_sitemap :: "web \<Rightarrow> string \<Rightarrow> string option" where
  "find_sitemap w base_url =
     (case probe_paths w base_url sitemap_paths of
        Some sitemap_url \<Rightarrow> Some sitemap_url
      | None \<Rightarrow>
          (case session_get w (urljoin w base_url ''/robots.txt'') of
             None \<Rightarrow> None
           | Some response \<Rightarrow>
               if status_code response = 200
               then scan_robots w (split_on (CHR 0x0A) (resp_text response))
               else None))"

datatype error = ValueError string

definition no_sitemap_message :: "string \<Rightarrow> string" where
  \<comment> \<open>the f-string of the \<open>ValueError\<close>, with its two non-ASCII letters as UTF-8 bytes\<close>
  "no_sitemap_message base_url =
     ''Nepoda'' @ [CHR 0xC5, CHR 0x99] @ ''ilo se naj'' @ [CHR 0xC3, CHR 0xAD] @
     ''t sitemapu pro '' @ base_url"

definition get_all_urls :: "web \<Rightarrow> string \<Rightarrow> error + string list" where
  \<comment> \<open>\<open>base_url\<close> is \<open>self.base_url\<close>; \<open>Inl\<close> is the exception raised.
      \<open>not sitemap_url\<close> holds for \<open>None\<close> and for the empty string.\<close>
  "get_all_urls w base_url =
     (case find_sitemap w base_url of
        None \<Rightarrow> Inl (ValueError (no_sitemap_message base_url))
      | Some sitemap_url \<Rightarrow>
          if sitemap_url = [] then Inl (ValueError (no_sitemap_message base_url))
          else Inr (sorted_list_of_set (parse_sitemap w sitemap_url)))"

section \<open>Page results\<close>

text \<open>
  A page result is the dictionary that \<open>SEOScraper.scrape_url\<close> returns and that \<open>main\<close>
  mutates. A key read with \<open>.get\<close> or added later is an option (\<open>None\<close>: the key is absent
  or holds \<open>None\<close>); \<open>issues\<close> and \<open>status\<close> are read with \<open>result[...]\<close> and always
  present. The other SEO attributes are the extension of the record.
\<close>

datatype status = Ok | Warning | Error

fun severity :: "status \<Rightarrow> nat" where
  \<comment> \<open>the order ok < warning < error\<close>
  "severity Ok = 0"
| "severity Warning = 1"
| "severity Error = 2"

record page_result =
  url :: string
  title :: "string option"
  meta_description :: "string option"
  issues :: "string list"
  status :: status
  error :: "string option"
  broken_links_count :: "int option"
  broken_links_detail :: "(string list \<times> string list) option"

section \<open>Duplicate detection\<close>

definition append_if :: "string list \<Rightarrow> string option \<Rightarrow> string list" where
  \<comment> \<open>\<open>if value: values.append(value)\<close>\<close>
  "append_if values v =
     (case v of None \<Rightarrow> values | Some s \<Rightarrow> if s = [] then values else values @ [s])"

fun collect_values :: "'a page_result_scheme list \<Rightarrow> string list \<times> string list \<Rightarrow> string list \<times> string list" where
  \<comment> \<open>the first loop of \<open>detect_duplicates\<close>, on the pair \<open>(titles, descriptions)\<close>\<close>
  "collect_values [] (titles, descriptions) = (titles, descriptions)"
| "collect_values (result # rest) (titles, descriptions) =
     collect_values rest
       (append_if titles (title result), append_if descriptions (meta_description result))"

fun counter_add :: "'k \<Rightarrow> ('k \<times> nat) list \<Rightarrow> ('k \<times> nat) list" where
  \<comment> \<open>\<open>counter[k] += 1\<close> on a dictionary kept as its items in insertion order\<close>
  "counter_add k [] = [(k, 1)]"
| "counter_add k ((k', n) # items) =
     (if k = k' then (k', n + 1) # items else (k', n) # counter_add k items)"

definition Counter :: "'k list \<Rightarrow> ('k \<times> nat) list" where
  \<comment> \<open>\<open>Counter(xs).items()\<close>: the elements in the order of their first occurrence, each with
      its number of occurrences\<close>
  "Counter xs = foldl (\<lambda>items x. counter_add x items) [] xs"

definition detect_duplicates :: "'a page_result_scheme list \<Rightarrow> string list \<times> string list" where
  "detect_duplicates results =
     (let (titles, descriptions) = collect_values results ([], []);
          title_counter = Counter titles;
          description_counter = Counter descriptions;
          duplicate_titles = map fst (filter (\<lambda>(title, count). count > 1) title_counter);
          duplicate_descriptions = map fst (filter (\<lambda>(desc, count). count > 1) description_counter)
      in (duplicate_titles, duplicate_descriptions))"

definition duplicate_title_issue :: "string \<Rightarrow> string" where
  \<comment> \<open>the f-string \<open>Duplicitni title: "{title}"\<close>, its accented letter as UTF-8 bytes\<close>
  "duplicate_title_issue t =
     ''Duplicitn'' @ [CHR 0xC3, CHR 0xAD] @ '' title: '' @ [CHR 0x22] @ t @ [CHR 0x22]"

definition duplicate_description_issue :: "string \<Rightarrow> string" where
  \<comment> \<open>the f-string \<open>Duplicitni description: "{description}"\<close>\<close>
  "duplicate_description_issue d =
     ''Duplicitn'' @ [CHR 0xC3, CHR 0xAD] @ '' description: '' @ [CHR 0x22] @ d @ [CHR 0x22]"

definition escalate_ok :: "'a page_result_scheme \<Rightarrow> 'a page_result_scheme" where
  \<comment> \<open>\<open>if result['status'] == 'ok': result['status'] = 'warning'\<close>\<close>
  "escalate_ok result = (if status result = Ok then result\<lparr>status := Warning\<rparr> else result)"

definition in_list :: "string option \<Rightarrow> string list \<Rightarrow> bool" where
  \<comment> \<open>\<open>value in values\<close> for a value that is \<open>None\<close> or a string, and a list of strings\<close>
  "in_list v values = (case v of None \<Rightarrow> False | Some s \<Rightarrow> s \<in> set values)"

definition warn_duplicates :: "string list \<Rightarrow> string list \<Rightarrow> 'a page_result_scheme \<Rightarrow> 'a page_result_scheme" where
  \<comment> \<open>the body of the loop of \<open>add_duplicate_warnings\<close>; \<open>None in duplicate_titles\<close> is
      false, the lists hold strings\<close>
  "warn_duplicates duplicate_titles duplicate_descriptions result =
     (let r1 = (case title result of
                  None \<Rightarrow> result
                | Some t \<Rightarrow>
                    if t \<in> set duplicate_titles
                    then escalate_ok (result\<lparr>issues := issues result @ [duplicate_title_issue t]\<rparr>)
                    else result)
      in (case meta_description result of
            None \<Rightarrow> r1
          | Some d \<Rightarrow>
              if d \<in> set duplicate_descriptions
              then escalate_ok (r1\<lparr>issues := issues r1 @ [duplicate_description_issue d]\<rparr>)
              else r1))"

definition add_duplicate_warnings ::
  "'a page_result_scheme list \<Rightarrow> string list \<Rightarrow> string list \<Rightarrow> 'a page_result_scheme list" where
  \<comment> \<open>the results after the call, which mutates each dictionary in place\<close>
  "add_duplicate_warnings results duplicate_titles duplicate_descriptions =
     map (warn_duplicates duplicate_titles duplicate_descriptions) results"

section \<open>The pipeline of \<open>main\<close>\<close>

function digits :: "nat \<Rightarrow> string" where
  "digits n = (if n < 10 then [char_of (48 + n)] else digits (n div 10) @ [char_of (48 + n mod 10)])"
  by pat_completeness auto
termination
  by (relation "measure (\<lambda>n. n)") auto

declare digits.simps [simp del]

definition str_int :: "int \<Rightarrow> string" where
  \<comment> \<open>\<open>str(n)\<close> for an integer\<close>
  "str_int n = (if n < 0 then CHR ''-'' # digits (nat (- n)) else digits (nat n))"

definition decimal_value :: "string \<Rightarrow> nat" where
  \<comment> \<open>the number that a string of decimal digits denotes\<close>
  "decimal_value s = foldl (\<lambda>a c. 10 * a + (of_char c - 48)) 0 s"

definition broken_links_issue :: "int \<Rightarrow> string" where
  \<comment> \<open>the f-string \<open>{total_broken} broken links/obrazku\<close>, its accented letters as UTF-8 bytes\<close>
  "broken_links_issue n =
     str_int n @ '' broken links/obr'' @ [CHR 0xC3, CHR 0xA1] @ ''zk'' @ [CHR 0xC5, CHR 0xAF]"

text \<open>
  The result of \<open>LinkValidator.validate_page_links\<close>, and the collaborators of \<open>main\<close>
  that are not part of these sources: \<open>scrape_url\<close> and \<open>fetch_page\<close> of the scraper
  (\<open>fetch_page\<close> gives \<open>str(soup)\<close>, or \<open>None\<close> when \<open>soup\<close> is \<open>None\<close>) and
  \<open>validate_page_links html url\<close> of the link validator.
\<close>

record link_validation =
  broken_links :: "string list"
  broken_images :: "string list"
  total_broken :: int

record 'a collaborators =
  scrape_url :: "string \<Rightarrow> 'a page_result_scheme"
  fetch_page :: "string \<Rightarrow> string option"
  validate_page_links :: "string \<Rightarrow> string \<Rightarrow> link_validation"

text \<open>What the pipeline does to its collaborators, in order.\<close>

datatype event =
    ScrapeUrl string
  | LinkValidatorCreated
  | FetchPage string
  | ValidatePageLinks string string

definition record_broken_links :: "link_validation \<Rightarrow> 'a page_result_scheme \<Rightarrow> 'a page_result_scheme" where
  \<comment> \<open>lines 203 to 214 of \<open>main\<close>: the two fields, then the issue and the escalation\<close>
  "record_broken_links lv result =
     (let r1 = result\<lparr>broken_links_count := Some (total_broken lv),
                      broken_links_detail := Some (broken_links lv, broken_images lv)\<rparr>
      in if total_broken lv > 0
         then (let r2 = escalate_ok (r1\<lparr>issues := issues r1 @ [broken_links_issue (total_broken lv)]\<rparr>)
               in if total_broken lv > 5 then r2\<lparr>status := Error\<rparr> else r2)
         else r1)"

definition validate_result ::
  "'a collaborators \<Rightarrow> 'a page_result_scheme \<Rightarrow> 'a page_result_scheme \<times> event list" where
  \<comment> \<open>the body of the loop over \<open>results\<close> when link validation is enabled\<close>
  "validate_result c result =
     (if truthy (error result) then (result, [])
      else (case fetch_page c (url result) of
              None \<Rightarrow> (result, [FetchPage (url result)])
            | Some html_content \<Rightarrow>
                (record_broken_links (validate_page_links c html_content (url result)) result,
                 [FetchPage (url result), ValidatePageLinks html_content (url result)])))"

fun validate_results ::
  "'a collaborators \<Rightarrow> 'a page_result_scheme list \<Rightarrow> 'a page_result_scheme list \<times> event list" where
  "validate_results c [] = ([], [])"
| "validate_results c (result # rest) =
     (let (result', events) = validate_result c result;
          (rest', events') = validate_results c rest
      in (result' # rest', events @ events'))"

definition link_stage ::
  "'a collaborators \<Rightarrow> bool \<Rightarrow> 'a page_result_scheme list \<Rightarrow> 'a page_result_scheme list \<times> event list" where
  \<comment> \<open>step 3 of \<open>main\<close>; the flag is \<open>args.skip_links\<close>\<close>
  "link_stage c skip_links results =
     (if \<not> skip_links
      then (let (results', events) = validate_results c results
            in (results', LinkValidatorCreated # events))
      else (map (\<lambda>result. result\<lparr>broken_links_count := Some 0\<rparr>) results, []))"

record 'a report =
  final_results :: "'a page_result_scheme list"
  final_duplicate_titles :: "string list"
  final_duplicate_descriptions :: "string list"

definition analyse ::
  "'a collaborators \<Rightarrow> bool \<Rightarrow> string list \<Rightarrow> 'a report \<times> event list" where
  \<comment> \<open>steps 2 to 4 of \<open>main\<close>: scrape every URL, validate links or skip, detect duplicates
      and add their warnings\<close>
  "analyse c skip_links urls =
     (let scraped = map (scrape_url c) urls;
          (validated, events) = link_stage c skip_links scraped;
          (dts, dds) = detect_duplicates validated
      in (\<lparr>final_results = add_duplicate_warnings validated dts dds,
           final_duplicate_titles = dts, final_duplicate_descriptions = dds\<rparr>,
          map ScrapeUrl urls @ events))"

record args =
  args_url :: string
  args_skip_links :: bool
  args_limit :: "int option"

datatype 'a outcome = Exit int | Exported "'a report"

definition apply_limit :: "int option \<Rightarrow> string list \<Rightarrow> string list" where
  \<comment> \<open>\<open>if args.limit and args.limit > 0: urls = urls[:args.limit]\<close>\<close>
  "apply_limit l urls =
     (case l of
        None \<Rightarrow> urls
      | Some n \<Rightarrow> if n \<noteq> 0 \<and> n > 0 then take (nat n) urls else urls)"

definition main :: "web \<Rightarrow> 'a collaborators \<Rightarrow> args \<Rightarrow> 'a outcome \<times> event list" where
  \<comment> \<open>\<open>sys.exit(1)\<close> is \<open>Exit 1\<close>; the \<open>ValueError\<close> of \<open>get_all_urls\<close> is caught by
      \<open>except Exception\<close>, which prints it and exits with 1. \<open>SitemapParser(url)\<close> strips the
      trailing slashes of its argument once more.\<close>
  "main w c a =
     (let u = rstrip_slash (args_url a) in
      if \<not> (prefix ''http://'' u \<or> prefix ''https://'' u) then (Exit 1, [])
      else (case get_all_urls w (rstrip_slash u) of
              Inl e \<Rightarrow> (Exit 1, [])
            | Inr urls \<Rightarrow>
                if urls = [] then (Exit 1, [])
                else (let (report, events) = analyse c (args_skip_links a) (apply_limit (args_limit a) urls)
                      in (Exported report, events))))"

section \<open>What the properties speak about\<close>

text \<open>
  The \<open>loc\<close> values of the page entries and of the pointer entries of a document; the
  document that one call of \<open>parse_sitemap_recursive\<close> gets for a URL (the request
  answers without an exception and the body parses); and the documents requested during
  one call of \<open>parse_sitemap\<close>. A sitemap index is a document whose root element is
  \<open>sitemapindex\<close>, every other document is a leaf sitemap. From these: the page URLs
  listed by the requested leaf sitemaps, the page URLs listed by requested sitemap
  indexes (a sitemap index has no page entries, unless it is malformed), and the URLs that
  the requested documents list as pointers to other sitemaps.
\<close>

definition page_locs :: "element \<Rightarrow> string list" where
  "page_locs root = List.map_filter loc_text (findall root (qname ''url''))"


definition fetched_document :: "web \<Rightarrow> string \<Rightarrow> element option" where
  "fetched_document w u =
     (case session_get w u of
        None \<Rightarrow> None
      | Some response \<Rightarrow> if raise_for_status response then None else resp_xml response)"

definition is_sitemap_index :: "element \<Rightarrow> bool" where
  "is_sitemap_index root = (elem_tag root = qname ''sitemapindex'')"

definition requested_documents :: "web \<Rightarrow> string \<Rightarrow> element list" where
  "requested_documents w sitemap_url =
     List.map_filter (fetched_document w)
       (requests (parse_sitemap_recursive w sitemap_url initial_state))"


definition index_page_locs :: "web \<Rightarrow> string \<Rightarrow> string set" where
  "index_page_locs w sitemap_url =
     set (concat (map page_locs (filter is_sitemap_index (requested_documents w sitemap_url))))"



definition once :: "parser_state \<Rightarrow> bool" where
  \<comment> \<open>no URL was requested twice, and the requested URLs are the visited ones\<close>
  "once st = (distinct (requests st) \<and> set (requests st) = visited_sitemaps st)"

definition counts :: "'k list \<Rightarrow> ('k \<times> nat) list \<Rightarrow> bool" where
  \<comment> \<open>the items are a dictionary that maps each element of \<open>xs\<close> to its number of
      occurrences, and holds nothing else\<close>
  "counts xs items =
     (distinct (map fst items) \<and>
      map_of items = (\<lambda>x. if x \<in> set xs then Some (count_list xs x) else None))"

fun link_event :: "event \<Rightarrow> bool" where
  \<comment> \<open>the events of the link validation stage\<close>
  "link_event (ScrapeUrl u) = False"
| "link_event LinkValidatorCreated = True"
| "link_event (FetchPage u) = True"
| "link_event (ValidatePageLinks html u) = True"

section \<open>Example pages and sites\<close>

definition page :: "string \<Rightarrow> string option \<Rightarrow> string option \<Rightarrow> status \<Rightarrow> string option \<Rightarrow> page_result" where
  \<comment> \<open>a page result as the scraper leaves it: no issue yet and no broken-link field\<close>
  "page u t d s e =
     \<lparr>url = u, title = t, meta_description = d, issues = [], status = s, error = e,
      broken_links_count = None, broken_links_detail = None\<rparr>"

definition broken :: "int \<Rightarrow> link_validation" where
  \<comment> \<open>a link validation that found \<open>n\<close> broken targets\<close>
  "broken n = \<lparr>broken_links = [], broken_images = [], total_broken = n\<rparr>"

definition collaborators_example :: "int \<Rightarrow> unit collaborators" where
  \<comment> \<open>every page scrapes and fetches well, and has \<open>n\<close> broken targets\<close>
  "collaborators_example n =
     \<lparr>scrape_url = (\<lambda>u. page u (Some ''Home'') None Ok None),
      fetch_page = (\<lambda>u. Some ''<html></html>''),
      validate_page_links = (\<lambda>html u. broken n)\<rparr>"

definition ok_response :: "string \<Rightarrow> element \<Rightarrow> response" where
  "ok_response u doc =
     \<lparr>status_code = 200, content_type = Some ''application/xml'', resp_url = u,
      resp_text = [], resp_xml = Some doc\<rparr>"

definition loc :: "string \<Rightarrow> element" where
  "loc u = Element (qname ''loc'') (Some u) []"

definition url_entry :: "string \<Rightarrow> element" where
  "url_entry u = Element (qname ''url'') None [loc u]"

definition sitemap_entry :: "string \<Rightarrow> element" where
  "sitemap_entry u = Element (qname ''sitemap'') None [loc u]"

definition urlset :: "string list \<Rightarrow> element" where
  \<comment> \<open>a leaf sitemap: the root \<open>urlset\<close> with one \<open>url\<close> entry for each URL\<close>
  "urlset us = Element (qname ''urlset'') None (map url_entry us)"

definition sitemapindex :: "string list \<Rightarrow> element" where
  \<comment> \<open>a sitemap index: the root \<open>sitemapindex\<close> with one \<open>sitemap\<close> entry for each URL\<close>
  "sitemapindex us = Element (qname ''sitemapindex'') None (map sitemap_entry us)"

definition nested_index :: "string list \<Rightarrow> element" where
  \<comment> \<open>a document whose root has a child \<open>sitemapindex\<close>, followed by \<open>sitemap\<close> entries\<close>
  "nested_index us =
     Element (qname ''sitemaps'') None
       (Element (qname ''sitemapindex'') None [] # map sitemap_entry us)"

definition site :: "(string \<times> element) list \<Rightarrow> web" where
  \<comment> \<open>a site that serves the listed XML documents; base URLs have no path\<close>
  "site docs =
     \<lparr>urljoin = (\<lambda>base path. base @ path),
      session_head = (\<lambda>u follow. map_option (ok_response u) (map_of docs u)),
      pages = map (\<lambda>(u, d). (u, ok_response u d)) docs\<rparr>"

definition scenario_b :: web where
  \<comment> \<open>Scenario B: an index at \<open>/sitemap.xml\<close> and its two children, with 2 and 3 URLs\<close>
  "scenario_b = site
     [(''https://example.com/sitemap.xml'',
         sitemapindex [''https://example.com/s1.xml'', ''https://example.com/s2.xml'']),
      (''https://example.com/s1.xml'',
         urlset [''https://example.com/a'', ''https://example.com/b'']),
      (''https://example.com/s2.xml'',
         urlset [''https://example.com/c'', ''https://example.com/d'',
                 ''https://example.com/e''])]"

definition cyclic_site :: web where
  \<comment> \<open>an index that lists a child twice and itself, the child lists the index again\<close>
  "cyclic_site = site
     [(''https://example.com/sitemap.xml'',
         nested_index [''https://example.com/s1.xml'', ''https://example.com/s1.xml'',
                       ''https://example.com/sitemap.xml'']),
      (''https://example.com/s1.xml'',
         nested_index [''https://example.com/sitemap.xml'', ''https://example.com/s2.xml'']),
      (''https://example.com/s2.xml'', urlset [''https://example.com/a''])]"


definition index_with_page_entry :: web where
  \<comment> \<open>a malformed sitemap index: the root \<open>sitemapindex\<close> holds a \<open>url\<close> entry\<close>
  "index_with_page_entry = site
     [(''https://example.com/sitemap.xml'',
         Element (qname ''sitemapindex'') None
           [sitemap_entry ''https://example.com/s1.xml'', url_entry ''https://example.com/x'']),
      (''https://example.com/s1.xml'', urlset [''https://example.com/a''])]"

section \<open>Status escalation\<close>

lemma escalate_ok_status:
  "status (escalate_ok r) = (if status r = Ok then Warning else status r)"
  by (simp add: escalate_ok_def)

lemma warn_duplicates_severity:
  "severity (status r) \<le> severity (status (warn_duplicates dts dds r))"
  by (cases "status r") (auto simp: warn_duplicates_def Let_def escalate_ok_def split: option.splits)

lemma record_broken_links_severity:
  "severity (status r) \<le> severity (status (record_broken_links lv r))"
  by (cases "status r") (auto simp: record_broken_links_def Let_def escalate_ok_def)

lemma validate_result_severity:
  "severity (status r) \<le> severity (status (fst (validate_result c r)))"
  by (auto simp: validate_result_def record_broken_links_severity split: option.splits)

lemma fst_validate_results:
  "fst (validate_results c rs) = map (\<lambda>r. fst (validate_result c r)) rs"
  by (induction rs) (auto split: prod.splits)

lemma snd_validate_results:
  "snd (validate_results c rs) = concat (map (\<lambda>r. snd (validate_result c r)) rs)"
  by (induction rs) (auto split: prod.splits)

lemma fst_link_stage:
  "fst (link_stage c skip rs) =
     (if skip then map (\<lambda>r. r\<lparr>broken_links_count := Some 0\<rparr>) rs
      else map (\<lambda>r. fst (validate_result c r)) rs)"
  using fst_validate_results[of c rs] by (auto simp: link_stage_def split: prod.splits)

text \<open>
  Claim C3. Status escalation is monotonic in the order ok < warning < error. Each of the
  two annotation steps leaves every page with a status at least as severe as before:
  the duplicate warnings (for the whole list and for one page), and the link stage (for
  the whole list, with link validation enabled or skipped, and for one recorded link
  validation).
\<close>

theorem status_never_downgraded:
  "list_all2 (\<lambda>before after. severity (status before) \<le> severity (status after))
      rs (add_duplicate_warnings rs dts dds)
   \<and> list_all2 (\<lambda>before after. severity (status before) \<le> severity (status after))
      rs (fst (link_stage c skip rs))
   \<and> severity (status result) \<le> severity (status (warn_duplicates dts dds result))
   \<and> severity (status result) \<le> severity (status (record_broken_links lv result))"
  by (simp add: add_duplicate_warnings_def fst_link_stage list_all2_map2 list_all2_same
      warn_duplicates_severity validate_result_severity record_broken_links_severity)

text \<open>
  A page that failed to fetch (status error) and whose title is a duplicate, or that has
  three broken links recorded, keeps the status error; a page with status warning keeps it.
\<close>

theorem status_never_downgraded_witness:
  "status (warn_duplicates [''Home''] [] (page ''https://example.com/'' (Some ''Home'') None Error None)) = Error
   \<and> status (record_broken_links (broken 3) (page ''https://example.com/'' (Some ''Home'') None Error None)) = Error
   \<and> status (warn_duplicates [''Home''] [] (page ''https://example.com/'' (Some ''Home'') None Warning None)) = Warning
   \<and> severity (status (page ''https://example.com/'' (Some ''Home'') None Error None))
       \<le> severity (status (warn_duplicates [''Home''] []
            (page ''https://example.com/'' (Some ''Home'') None Error None)))"
  using status_never_downgraded
    [where dts = "[''Home'']" and dds = "[]" and lv = "broken 3"
       and result = "page ''https://example.com/'' (Some ''Home'') None Error None"]
  by (simp add: warn_duplicates_def record_broken_links_def escalate_ok_def page_def broken_def)

section \<open>Frame of the duplicate warnings\<close>

lemma warn_duplicates_frame:
  "\<exists>added. warn_duplicates dts dds r
      = r\<lparr>issues := issues r @ added, status := status (warn_duplicates dts dds r)\<rparr>"
proof -
  have "\<exists>added. warn_duplicates dts dds r
      = r\<lparr>issues := issues r @ added, status := status (warn_duplicates dts dds r)\<rparr>"
    if "title r = Some t" "meta_description r = Some d" for t d
    using that
    by (auto simp: warn_duplicates_def Let_def escalate_ok_def intro: exI[of _ "[]"]
          exI[of _ "[duplicate_title_issue t]"] exI[of _ "[duplicate_description_issue d]"]
          exI[of _ "[duplicate_title_issue t, duplicate_description_issue d]"])
  moreover have "\<exists>added. warn_duplicates dts dds r
      = r\<lparr>issues := issues r @ added, status := status (warn_duplicates dts dds r)\<rparr>"
    if "title r = None" "meta_description r = Some d" for d
    using that
    by (auto simp: warn_duplicates_def Let_def escalate_ok_def intro: exI[of _ "[]"]
          exI[of _ "[duplicate_description_issue d]"])
  moreover have "\<exists>added. warn_duplicates dts dds r
      = r\<lparr>issues := issues r @ added, status := status (warn_duplicates dts dds r)\<rparr>"
    if "title r = Some t" "meta_description r = None" for t
    using that
    by (auto simp: warn_duplicates_def Let_def escalate_ok_def intro: exI[of _ "[]"]
          exI[of _ "[duplicate_title_issue t]"])
  moreover have "\<exists>added. warn_duplicates dts dds r
      = r\<lparr>issues := issues r @ added, status := status (warn_duplicates dts dds r)\<rparr>"
    if "title r = None" "meta_description r = None"
    using that
    by (auto simp: warn_duplicates_def Let_def escalate_ok_def intro: exI[of _ "[]"])
  ultimately show ?thesis
    by (cases "title r"; cases "meta_description r") blast+
qed

lemma warn_duplicates_unchanged:
  "\<not> in_list (title r) dts \<Longrightarrow> \<not> in_list (meta_description r) dds \<Longrightarrow>
     warn_duplicates dts dds r = r"
  by (auto simp: warn_duplicates_def in_list_def split: option.splits)

lemma warn_duplicates_broken_links_count:
  "broken_links_count (warn_duplicates dts dds r) = broken_links_count r"
proof -
  obtain added where "warn_duplicates dts dds r
      = r\<lparr>issues := issues r @ added, status := status (warn_duplicates dts dds r)\<rparr>"
    using warn_duplicates_frame by blast
  from arg_cong[OF this, of broken_links_count] show ?thesis by simp
qed

text \<open>
  Claim C10. \<open>add_duplicate_warnings\<close> changes a page result only by appending strings to
  its \<open>issues\<close> and possibly raising its \<open>status\<close>: each result afterwards is the result
  before with \<open>issues\<close> extended and \<open>status\<close> replaced by a status at least as severe, so
  every other field (\<open>url\<close>, \<open>title\<close>, \<open>meta_description\<close>, \<open>error\<close>, the broken-link
  fields and the other attributes) is unchanged. A result whose title and description
  are both outside the duplicate lists is unchanged altogether.
\<close>

theorem add_duplicate_warnings_frame:
  "list_all2 (\<lambda>before after.
       (\<exists>added. after = before\<lparr>issues := issues before @ added, status := status after\<rparr>)
       \<and> severity (status before) \<le> severity (status after)
       \<and> (\<not> in_list (title before) dts \<and> \<not> in_list (meta_description before) dds
            \<longrightarrow> after = before))
     rs (add_duplicate_warnings rs dts dds)"
  by (simp add: add_duplicate_warnings_def list_all2_map2 list_all2_same
      warn_duplicates_severity warn_duplicates_frame warn_duplicates_unchanged)

text \<open>
  Two pages, the first with a duplicate title: it gets one issue and the status warning
  and keeps its other fields; the second is returned as it was.
\<close>

theorem add_duplicate_warnings_frame_witness:
  "add_duplicate_warnings
     [page ''https://example.com/a'' (Some ''Home'') (Some ''About us'') Ok None,
      page ''https://example.com/b'' (Some ''Contact'') None Ok None]
     [''Home''] []
   = [(page ''https://example.com/a'' (Some ''Home'') (Some ''About us'') Ok None)
        \<lparr>issues := [duplicate_title_issue ''Home''], status := Warning\<rparr>,
      page ''https://example.com/b'' (Some ''Contact'') None Ok None]"
  using add_duplicate_warnings_frame
    [of "[''Home'']" "[]"
      "[page ''https://example.com/a'' (Some ''Home'') (Some ''About us'') Ok None,
        page ''https://example.com/b'' (Some ''Contact'') None Ok None]"]
  by (simp add: add_duplicate_warnings_def warn_duplicates_def escalate_ok_def page_def)

section \<open>Sitemap discovery\<close>

lemma lower_char_colon: "lower_char c = CHR '':'' \<Longrightarrow> c = CHR '':''"
proof (cases "CHR ''A'' \<le> c \<and> c \<le> CHR ''Z''")
  case False
  assume "lower_char c = CHR '':''"
  with False show ?thesis by (auto simp: lower_char_def split: if_splits)
next
  case True
  assume a: "lower_char c = CHR '':''"
  from True have "65 \<le> (of_char c :: nat)" "(of_char c :: nat) \<le> 90"
    by (simp_all add: less_eq_char_def)
  moreover from a True have "char_of (of_char c + (32::nat)) = CHR '':''"
    by (simp add: lower_char_def)
  then have "(of_char (char_of (of_char c + (32::nat)) :: char) :: nat) = of_char (CHR '':'')"
    by simp
  ultimately show ?thesis by (simp add: of_char_of)
qed

lemma sitemap_line_has_colon:
  assumes "prefix ''sitemap:'' (lower line)"
  shows "after_first (CHR '':'') line \<noteq> None"
proof -
  from assms have "CHR '':'' \<in> set (lower line)"
    by (auto simp: prefix_def)
  then obtain c where "c \<in> set line" "lower_char c = CHR '':''"
    by (auto simp: lower_def)
  then have "CHR '':'' \<in> set line" by (auto dest: lower_char_colon)
  then have "dropWhile (\<lambda>c. c \<noteq> CHR '':'') line \<noteq> []"
    by (simp add: dropWhile_eq_Nil_conv)
  then show ?thesis by (simp add: after_first_def split: list.splits)
qed

text \<open>
  Claim C5. When \<open>find_sitemap\<close> returns nothing, \<open>get_all_urls\<close> raises the
  \<open>ValueError\<close> that says no sitemap was found, and \<open>main\<close> ends the run with exit
  code 1. When a sitemap is found, \<open>get_all_urls\<close> returns the sorted list of its URLs
  and never that error; when the sitemap yields no URL, this is the empty list: an
  exception in one case, a value in the other.
\<close>

theorem no_sitemap_is_a_distinct_error:
  "(find_sitemap w base_url = None \<longrightarrow>
      get_all_urls w base_url = Inl (ValueError (no_sitemap_message base_url)))
   \<and> (find_sitemap w base_url = Some sitemap_url \<and> sitemap_url \<noteq> [] \<longrightarrow>
      get_all_urls w base_url = Inr (sorted_list_of_set (parse_sitemap w sitemap_url)))
   \<and> (find_sitemap w base_url = Some sitemap_url \<and> sitemap_url \<noteq> []
        \<and> parse_sitemap w sitemap_url = {} \<longrightarrow>
      get_all_urls w base_url = Inr [])
   \<and> (get_all_urls w (rstrip_slash (rstrip_slash (args_url a))) = Inl e \<longrightarrow>
      main w c a = (Exit 1, []))"
proof -
  have "get_all_urls w base_url = Inl (ValueError (no_sitemap_message base_url))"
    if "find_sitemap w base_url = None"
    using that by (simp add: get_all_urls_def)
  moreover have "get_all_urls w base_url = Inr (sorted_list_of_set (parse_sitemap w sitemap_url))"
    if "find_sitemap w base_url = Some sitemap_url" "sitemap_url \<noteq> []"
    using that by (simp add: get_all_urls_def)
  moreover have "main w c a = (Exit 1, [])"
    if "get_all_urls w (rstrip_slash (rstrip_slash (args_url a))) = Inl e"
    using that by (simp add: main_def Let_def)
  ultimately show ?thesis by auto
qed

text \<open>
  A site that serves nothing gives the error and ends the run; a site whose
  \<open>/sitemap.xml\<close> is an empty \<open>urlset\<close> gives the empty list.
\<close>

theorem no_sitemap_is_a_distinct_error_witness:
  "get_all_urls (site []) ''https://example.com''
     = Inl (ValueError (no_sitemap_message ''https://example.com''))
   \<and> get_all_urls (site [(''https://example.com/sitemap.xml'', urlset [])]) ''https://example.com''
     = Inr []
   \<and> main (site []) (collaborators_example 0)
       \<lparr>args_url = ''https://example.com/'', args_skip_links = False, args_limit = None\<rparr>
     = (Exit 1, [])"
proof -
  have none: "find_sitemap (site []) ''https://example.com'' = None"
    by code_simp
  have found: "find_sitemap (site [(''https://example.com/sitemap.xml'', urlset [])])
      ''https://example.com'' = Some ''https://example.com/sitemap.xml''"
    by code_simp
  have empty: "parse_sitemap (site [(''https://example.com/sitemap.xml'', urlset [])])
      ''https://example.com/sitemap.xml'' = {}"
    by code_simp
  have base: "rstrip_slash (rstrip_slash ''https://example.com/'') = ''https://example.com''"
    by code_simp
  note unserved = no_sitemap_is_a_distinct_error
      [of "site []" "''https://example.com''" "[]"
         "\<lparr>args_url = ''https://example.com/'', args_skip_links = False, args_limit = None\<rparr>"
         "ValueError (no_sitemap_message ''https://example.com'')" "collaborators_example 0"]
  from unserved none have 1: "get_all_urls (site []) ''https://example.com''
      = Inl (ValueError (no_sitemap_message ''https://example.com''))"
    by simp
  from unserved 1 base have 2: "main (site []) (collaborators_example 0)
       \<lparr>args_url = ''https://example.com/'', args_skip_links = False, args_limit = None\<rparr>
     = (Exit 1, [])"
    by simp
  note empty_sitemap = no_sitemap_is_a_distinct_error
      [of "site [(''https://example.com/sitemap.xml'', urlset [])]" "''https://example.com''"
         "''https://example.com/sitemap.xml''"
         "\<lparr>args_url = ''https://example.com/'', args_skip_links = False, args_limit = None\<rparr>"
         "ValueError []" "collaborators_example 0"]
  from empty_sitemap found empty
  have 3: "get_all_urls (site [(''https://example.com/sitemap.xml'', urlset [])])
      ''https://example.com'' = Inr []"
    by simp
  from 1 2 3 show ?thesis by simp
qed

section \<open>Sitemap resolution\<close>


lemma add_page_urls_requests: "requests (add_page_urls es st) = requests st"
  by (induction es arbitrary: st) (auto split: option.splits)





text \<open>A URL is requested only when it is not yet visited, and is visited from then on.\<close>

lemma add_page_urls_once: "once (add_page_urls es st) = once st"
  by (simp add: once_def add_page_urls_requests add_page_urls_visited)

lemma once_fetch:
  "once st \<Longrightarrow> u \<notin> visited_sitemaps st \<Longrightarrow>
     once (st\<lparr>visited_sitemaps := insert u (visited_sitemaps st), requests := requests st @ [u]\<rparr>)"
  by (auto simp: once_def)

lemma once_preserved:
  "once st \<Longrightarrow> once (parse_sitemap_recursive w u st)"
  "once st \<Longrightarrow> once (parse_index_entries w es st)"
proof (induction w u st and w es st rule: parse_sitemap_recursive_parse_index_entries.induct)
  case (1 w u st)
  show ?case
  proof (cases "u \<in> visited_sitemaps st")
    case True
    with "1.prems" show ?thesis by (simp add: parse_sitemap_recursive.simps)
  next
    case False
    let ?st1 = "st\<lparr>visited_sitemaps := insert u (visited_sitemaps st),
                      requests := requests st @ [u]\<rparr>"
    have st1: "once ?st1" using "1.prems" False by (rule once_fetch)
    show ?thesis
    proof (cases "session_get w u")
      case None
      with False st1 show ?thesis by (simp add: parse_sitemap_recursive.simps)
    next
      case (Some response)
      show ?thesis
      proof (cases "raise_for_status response \<or> resp_xml response = None")
        case True
        with False Some st1 show ?thesis
          by (auto simp: parse_sitemap_recursive.simps Let_def)
      next
        case ok: False
        then obtain root where root: "resp_xml response = Some root" by auto
        show ?thesis
        proof (cases "find_elem root (qname ''sitemapindex'') \<noteq> None")
          case True
          from "1.IH"[OF False refl Some _ root True st1] ok
          have "once (parse_index_entries w (findall root (qname ''sitemap'')) ?st1)" by simp
          with False Some ok root True show ?thesis
            by (simp add: parse_sitemap_recursive.simps Let_def)
        next
          case leaf: False
          with False Some ok root st1 show ?thesis
            by (simp add: parse_sitemap_recursive.simps Let_def add_page_urls_once)
        qed
      qed
    qed
  qed
next
  case (2 w st)
  then show ?case by simp
next
  case (3 w sitemap_elem rest st)
  show ?case
  proof (cases "loc_text sitemap_elem")
    case None
    with "3.IH"(2) "3.prems" show ?thesis by simp
  next
    case (Some sitemap_url)
    with "3.IH"(1)[OF Some "3.prems"] "3.IH"(2) show ?thesis by simp
  qed
qed

lemma once_initial: "once initial_state"
  by (simp add: once_def initial_state_def)




text \<open>
  Claim C6. Sitemap resolution terminates for every sitemap URL and every table of
  documents, whatever the index entries refer to (the same child twice, an ancestor,
  the index itself): the call \<open>parse_sitemap_recursive w sitemap_url initial_state\<close> made by
  \<open>parse_sitemap\<close> is in the domain on which the recursion is well-founded. During that
  call no sitemap URL is requested twice, and the requested URLs are the visited ones.
\<close>

theorem sitemap_resolution_terminates_once:
  "parse_sitemap_recursive_parse_index_entries_dom (Inl (w, sitemap_url, initial_state))
   \<and> distinct (requests (parse_sitemap_recursive w sitemap_url initial_state))
   \<and> set (requests (parse_sitemap_recursive w sitemap_url initial_state))
       = visited_sitemaps (parse_sitemap_recursive w sitemap_url initial_state)"
  using once_preserved(1)[OF once_initial, of w sitemap_url] parse_sitemap_recursive_total
  by (simp add: once_def)

text \<open>
  On the cyclic site the index, its child and the leaf below are each requested once, in
  this order, and the one page URL of the leaf is found.
\<close>

theorem sitemap_resolution_terminates_once_witness:
  "parse_sitemap_recursive cyclic_site ''https://example.com/sitemap.xml'' initial_state
     = \<lparr>all_urls = {''https://example.com/a''},
        visited_sitemaps = {''https://example.com/s2.xml'', ''https://example.com/s1.xml'',
                            ''https://example.com/sitemap.xml''},
        requests = [''https://example.com/sitemap.xml'', ''https://example.com/s1.xml'',
                    ''https://example.com/s2.xml'']\<rparr>
   \<and> distinct (requests
        (parse_sitemap_recursive cyclic_site ''https://example.com/sitemap.xml'' initial_state))"
proof -
  have "parse_sitemap_recursive cyclic_site ''https://example.com/sitemap.xml'' initial_state
     = \<lparr>all_urls = {''https://example.com/a''},
        visited_sitemaps = {''https://example.com/s2.xml'', ''https://example.com/s1.xml'',
                            ''https://example.com/sitemap.xml''},
        requests = [''https://example.com/sitemap.xml'', ''https://example.com/s1.xml'',
                    ''https://example.com/s2.xml'']\<rparr>"
    by code_simp
  with sitemap_resolution_terminates_once[of cyclic_site "''https://example.com/sitemap.xml''"]
  show ?thesis by simp
qed




text \<open>
  The case left out above: a document with the root \<open>sitemapindex\<close> that holds a page
  entry is read as a leaf sitemap, for the reason shown at claim C1, and its page entry
  is returned while its child is not requested.
\<close>

lemma index_with_page_entry_is_read_as_leaf:
  "get_all_urls index_with_page_entry ''https://example.com'' = Inr [''https://example.com/x'']
   \<and> index_page_locs index_with_page_entry ''https://example.com/sitemap.xml''
       = {''https://example.com/x''}
   \<and> requests (parse_sitemap_recursive index_with_page_entry
        ''https://example.com/sitemap.xml'' initial_state) = [''https://example.com/sitemap.xml'']"
proof -
  have "get_all_urls index_with_page_entry ''https://example.com''
      = Inr [''https://example.com/x'']"
    by code_simp
  moreover have "index_page_locs index_with_page_entry ''https://example.com/sitemap.xml''
       = {''https://example.com/x''}"
    by code_simp
  moreover have "requests (parse_sitemap_recursive index_with_page_entry
        ''https://example.com/sitemap.xml'' initial_state) = [''https://example.com/sitemap.xml'']"
    by code_simp
  ultimately show ?thesis by simp
qed

text \<open>
  Claim C1, at Scenario B. The document at \<open>/sitemap.xml\<close> has the root
  \<open>sitemapindex\<close> and two \<open>sitemap\<close> entries; the children list 2 and 3 page URLs.
  \<open>root.find('sitemap:sitemapindex', namespace)\<close> looks for a child of the root with that
  tag and finds none, so the index is read as a leaf sitemap without \<open>url\<close> entries: only
  the index is requested, no URL is returned, and \<open>get_all_urls\<close> gives the empty list.
  Each child alone, passed to \<open>parse_sitemap\<close>, gives its page URLs.
\<close>

theorem scenario_b_index_is_not_followed:
  "parse_sitemap scenario_b ''https://example.com/sitemap.xml'' = {}
   \<and> requests (parse_sitemap_recursive scenario_b ''https://example.com/sitemap.xml'' initial_state)
       = [''https://example.com/sitemap.xml'']
   \<and> get_all_urls scenario_b ''https://example.com'' = Inr []
   \<and> parse_sitemap scenario_b ''https://example.com/s1.xml''
       = {''https://example.com/a'', ''https://example.com/b''}
   \<and> parse_sitemap scenario_b ''https://example.com/s2.xml''
       = {''https://example.com/c'', ''https://example.com/d'', ''https://example.com/e''}"
proof -
  have "parse_sitemap scenario_b ''https://example.com/sitemap.xml'' = {}"
    by code_simp
  moreover have "requests (parse_sitemap_recursive scenario_b ''https://example.com/sitemap.xml''
      initial_state) = [''https://example.com/sitemap.xml'']"
    by code_simp
  moreover have "get_all_urls scenario_b ''https://example.com'' = Inr []"
    by code_simp
  moreover have "parse_sitemap scenario_b ''https://example.com/s1.xml''
       = {''https://example.com/a'', ''https://example.com/b''}"
    by code_simp
  moreover have "parse_sitemap scenario_b ''https://example.com/s2.xml''
       = {''https://example.com/c'', ''https://example.com/d'', ''https://example.com/e''}"
    by code_simp
  ultimately show ?thesis by simp
qed

section \<open>Duplicate detection\<close>

lemma counter_add_keys:
  "map fst (counter_add k items) =
     (if k \<in> fst ` set items then map fst items else map fst items @ [k])"
  by (induction items) force+

lemma counter_add_lookup:
  "map_of (counter_add k items) =
     (map_of items)(k \<mapsto> (case map_of items k of None \<Rightarrow> 1 | Some n \<Rightarrow> n + 1))"
  by (induction items) (auto simp: fun_eq_iff)

lemma counts_add:
  assumes "counts xs items"
  shows "counts (xs @ [x]) (counter_add x items)"
proof -
  from assms have d: "distinct (map fst items)"
    and m: "map_of items = (\<lambda>x. if x \<in> set xs then Some (count_list xs x) else None)"
    by (simp_all add: counts_def)
  have "x \<in> fst ` set items \<longleftrightarrow> x \<in> set xs"
    using m by (metis (mono_tags, lifting) map_of_eq_None_iff option.distinct(1))
  then have "distinct (map fst (counter_add x items))"
    using d m by (auto simp: counter_add_keys)
  moreover have "map_of (counter_add x items)
      = (\<lambda>y. if y \<in> set (xs @ [x]) then Some (count_list (xs @ [x]) y) else None)"
    unfolding counter_add_lookup m by (auto simp: fun_eq_iff)
  ultimately show ?thesis by (simp add: counts_def)
qed

lemma counts_foldl:
  "counts xs items \<Longrightarrow> counts (xs @ ys) (foldl (\<lambda>items x. counter_add x items) items ys)"
proof (induction ys arbitrary: xs items)
  case Nil
  then show ?case by simp
next
  case (Cons y ys)
  from Cons.IH[OF counts_add[OF Cons.prems, of y]] show ?case by simp
qed

lemma counts_Counter: "counts xs (Counter xs)"
  using counts_foldl[of "[]" "[]" xs] by (simp add: Counter_def counts_def)

lemma duplicates_of_counts:
  assumes "counts xs items"
  shows "set (map fst (filter (\<lambda>(k, count). count > 1) items)) = {x. 1 < count_list xs x}"
    and "distinct (map fst (filter (\<lambda>(k, count). count > 1) items))"
proof -
  have d: "distinct (map fst items)" using assms by (simp add: counts_def)
  show "distinct (map fst (filter (\<lambda>(k, count). count > 1) items))"
    using d by (rule distinct_map_filter)
  have look: "map_of items x = (if x \<in> set xs then Some (count_list xs x) else None)" for x
    using assms by (simp add: counts_def)
  show "set (map fst (filter (\<lambda>(k, count). count > 1) items)) = {x. 1 < count_list xs x}"
  proof (intro set_eqI iffI)
    fix x assume "x \<in> set (map fst (filter (\<lambda>(k, count). count > 1) items))"
    then obtain n where n: "(x, n) \<in> set items" "1 < n" by auto
    from n d have "map_of items x = Some n" by simp
    with look[of x] n show "x \<in> {x. 1 < count_list xs x}" by (auto split: if_splits)
  next
    fix x assume "x \<in> {x. 1 < count_list xs x}"
    then have c: "1 < count_list xs x" by simp
    then have "x \<in> set xs" by (metis count_list_0_iff not_less_zero)
    then have "map_of items x = Some (count_list xs x)" by (simp add: look)
    then have "(x, count_list xs x) \<in> set items" by (rule map_of_SomeD)
    with c show "x \<in> set (map fst (filter (\<lambda>(k, count). count > 1) items))" by force
  qed
qed

lemma append_if_append: "append_if values v = values @ append_if [] v"
  by (simp add: append_if_def split: option.splits)

lemma collect_values_eq:
  "collect_values rs (ts, ds) =
     (ts @ concat (map (\<lambda>r. append_if [] (title r)) rs),
      ds @ concat (map (\<lambda>r. append_if [] (meta_description r)) rs))"
proof (induction rs arbitrary: ts ds)
  case Nil
  show ?case by simp
next
  case (Cons r rs)
  show ?case
    by (simp add: Cons.IH append_if_append[of ts] append_if_append[of ds])
qed

lemma count_collected:
  "count_list (concat (map (\<lambda>r. append_if [] (f r)) rs)) t =
     (if t = [] then 0 else count_list (map f rs) (Some t))"
  by (induction rs) (auto simp: append_if_def split: option.splits)

lemma collected_filter:
  "concat (map (\<lambda>r. append_if [] (f r)) (filter (\<lambda>r. truthy (f r)) rs))
     = concat (map (\<lambda>r. append_if [] (f r)) rs)"
  by (induction rs) (auto simp: append_if_def truthy_def split: option.splits)

lemma fst_detect_duplicates:
  "fst (detect_duplicates rs) =
     map fst (filter (\<lambda>(k, count). count > 1)
       (Counter (concat (map (\<lambda>r. append_if [] (title r)) rs))))"
  by (simp add: detect_duplicates_def collect_values_eq)

lemma snd_detect_duplicates:
  "snd (detect_duplicates rs) =
     map fst (filter (\<lambda>(k, count). count > 1)
       (Counter (concat (map (\<lambda>r. append_if [] (meta_description r)) rs))))"
  by (simp add: detect_duplicates_def collect_values_eq)

text \<open>
  Claim C2. For every list of page results, the titles returned by \<open>detect_duplicates\<close>
  are exactly the non-empty titles that more than one page has, and the descriptions
  returned are exactly the non-empty descriptions that more than one page has; so a value
  that occurs once is in neither list. Each value is returned once. Pages with an empty or
  missing title add nothing to the titles counted, and likewise for descriptions:
  leaving these pages out gives the same result.
\<close>

theorem detect_duplicates_exact:
  "set (fst (detect_duplicates rs)) = {t. t \<noteq> [] \<and> 1 < count_list (map title rs) (Some t)}
   \<and> set (snd (detect_duplicates rs))
       = {d. d \<noteq> [] \<and> 1 < count_list (map meta_description rs) (Some d)}
   \<and> distinct (fst (detect_duplicates rs)) \<and> distinct (snd (detect_duplicates rs))
   \<and> fst (detect_duplicates (filter (\<lambda>r. truthy (title r)) rs)) = fst (detect_duplicates rs)
   \<and> snd (detect_duplicates (filter (\<lambda>r. truthy (meta_description r)) rs))
       = snd (detect_duplicates rs)"
proof -
  have "set (fst (detect_duplicates rs)) = {t. t \<noteq> [] \<and> 1 < count_list (map title rs) (Some t)}"
    unfolding fst_detect_duplicates duplicates_of_counts(1)[OF counts_Counter] count_collected
    by auto
  moreover have "set (snd (detect_duplicates rs))
       = {d. d \<noteq> [] \<and> 1 < count_list (map meta_description rs) (Some d)}"
    unfolding snd_detect_duplicates duplicates_of_counts(1)[OF counts_Counter] count_collected
    by auto
  moreover have "distinct (fst (detect_duplicates rs))" "distinct (snd (detect_duplicates rs))"
    unfolding fst_detect_duplicates snd_detect_duplicates
    by (rule duplicates_of_counts(2)[OF counts_Counter])+
  moreover have "fst (detect_duplicates (filter (\<lambda>r. truthy (title r)) rs))
      = fst (detect_duplicates rs)"
    unfolding fst_detect_duplicates collected_filter ..
  moreover have "snd (detect_duplicates (filter (\<lambda>r. truthy (meta_description r)) rs))
      = snd (detect_duplicates rs)"
    unfolding snd_detect_duplicates collected_filter ..
  ultimately show ?thesis by simp
qed

text \<open>
  Five pages: two share the title, two share the description, and two failed pages have
  no title or an empty one. The shared values are returned, the empty string is not.
\<close>

theorem detect_duplicates_exact_witness:
  "detect_duplicates
     [page ''https://example.com/a'' (Some ''Home'') (Some ''One'') Ok None,
      page ''https://example.com/b'' (Some ''Home'') (Some ''Two'') Ok None,
      page ''https://example.com/c'' (Some ''About'') (Some ''Two'') Ok None,
      page ''https://example.com/d'' None (Some []) Error (Some ''timeout''),
      page ''https://example.com/e'' (Some []) None Error (Some ''timeout'')]
   = ([''Home''], [''Two''])"
  using detect_duplicates_exact
    [of "[page ''https://example.com/a'' (Some ''Home'') (Some ''One'') Ok None,
      page ''https://example.com/b'' (Some ''Home'') (Some ''Two'') Ok None,
      page ''https://example.com/c'' (Some ''About'') (Some ''Two'') Ok None,
      page ''https://example.com/d'' None (Some []) Error (Some ''timeout''),
      page ''https://example.com/e'' (Some []) None Error (Some ''timeout'')]"]
  by (simp add: detect_duplicates_def page_def append_if_def Counter_def)

section \<open>Link validation stage\<close>

lemma validate_result_fetched:
  assumes "\<not> truthy (error result)" "fetch_page c (url result) = Some html"
  shows "fst (validate_result c result)
           = record_broken_links (validate_page_links c html (url result)) result"
  using assms by (simp add: validate_result_def)

lemma decimal_value_snoc: "decimal_value (s @ [c]) = 10 * decimal_value s + (of_char c - 48)"
  by (simp add: decimal_value_def)

text \<open>\<open>str\<close> of a natural number is its decimal notation.\<close>

lemma decimal_value_digits: "decimal_value (digits n) = n"
proof (induction n rule: digits.induct)
  case (1 n)
  show ?case
  proof (cases "n < 10")
    case True
    then have "digits n = [char_of (48 + n)]" by (simp add: digits.simps)
    with True show ?thesis by (simp add: decimal_value_def)
  next
    case False
    then have "digits n = digits (n div 10) @ [char_of (48 + n mod 10)]"
      by (subst digits.simps) simp
    with False "1.IH" show ?thesis by (simp add: decimal_value_snoc)
  qed
qed

lemma decimal_value_str_int: "0 \<le> n \<Longrightarrow> int (decimal_value (str_int n)) = n"
  by (simp add: str_int_def decimal_value_digits)

text \<open>
  Claim C4. For a page without an error whose re-fetch succeeds, the link stage stores
  the number \<open>n\<close> of broken targets in \<open>broken_links_count\<close>. If \<open>n > 0\<close>, it appends the
  issue that starts with \<open>str(n)\<close>, the decimal notation of \<open>n\<close>, and the status is at
  least warning, after the stage and after the duplicate warnings that follow it. If
  \<open>n > 5\<close>, the status is error whatever it was before, and stays error after the
  duplicate warnings.
\<close>

theorem broken_links_escalate:
  assumes "\<not> truthy (error result)"
    and "fetch_page c (url result) = Some html"
    and "total_broken (validate_page_links c html (url result)) = n"
  shows "broken_links_count (fst (validate_result c result)) = Some n
    \<and> (0 < n \<longrightarrow>
          issues (fst (validate_result c result)) = issues result @ [broken_links_issue n]
          \<and> prefix (str_int n) (broken_links_issue n)
          \<and> int (decimal_value (str_int n)) = n
          \<and> severity Warning \<le> severity (status (fst (validate_result c result)))
          \<and> severity Warning
               \<le> severity (status (warn_duplicates dts dds (fst (validate_result c result)))))
    \<and> (5 < n \<longrightarrow>
          status (fst (validate_result c result)) = Error
          \<and> status (warn_duplicates dts dds (fst (validate_result c result))) = Error)"
proof -
  let ?r = "fst (validate_result c result)"
  have r: "?r = record_broken_links (validate_page_links c html (url result)) result"
    using assms(1,2) by (rule validate_result_fetched)
  have count: "broken_links_count ?r = Some n"
    unfolding r using assms(3) by (simp add: record_broken_links_def Let_def escalate_ok_def)
  have issue: "issues ?r = issues result @ [broken_links_issue n]" if "0 < n"
    unfolding r using assms(3) that
    by (simp add: record_broken_links_def Let_def escalate_ok_def)
  have warn: "severity Warning \<le> severity (status ?r)" if "0 < n"
    unfolding r using assms(3) that
    by (cases "status result") (simp_all add: record_broken_links_def Let_def escalate_ok_def)
  have err: "status ?r = Error" if "5 < n"
    unfolding r using assms(3) that
    by (simp add: record_broken_links_def Let_def)
  have later: "severity (status ?r) \<le> severity (status (warn_duplicates dts dds ?r))"
    by (rule warn_duplicates_severity)
  have err': "status (warn_duplicates dts dds ?r) = Error" if "5 < n"
    using later err[OF that] by (cases "status (warn_duplicates dts dds ?r)") simp_all
  have "prefix (str_int n) (broken_links_issue n)"
    by (simp add: broken_links_issue_def)
  moreover have "int (decimal_value (str_int n)) = n" if "0 < n"
    using that by (simp add: decimal_value_str_int)
  ultimately show ?thesis
    using count issue warn err err' later by (auto intro: order_trans)
qed

text \<open>
  Scenario D: a page with status ok and 7 broken targets gets the count 7, the issue
  with the count and the status error, also after a duplicate-title warning.
\<close>

theorem broken_links_escalate_witness:
  "broken_links_count (fst (validate_result (collaborators_example 7)
       (page ''https://example.com/'' (Some ''Home'') None Ok None))) = Some 7
   \<and> status (fst (validate_result (collaborators_example 7)
       (page ''https://example.com/'' (Some ''Home'') None Ok None))) = Error
   \<and> issues (fst (validate_result (collaborators_example 7)
       (page ''https://example.com/'' (Some ''Home'') None Ok None)))
       = [''7 broken links/obr'' @ [CHR 0xC3, CHR 0xA1] @ ''zk'' @ [CHR 0xC5, CHR 0xAF]]
   \<and> status (warn_duplicates [''Home''] [] (fst (validate_result (collaborators_example 7)
       (page ''https://example.com/'' (Some ''Home'') None Ok None)))) = Error"
proof -
  have 1: "\<not> truthy (error (page ''https://example.com/'' (Some ''Home'') None Ok None))"
    by (simp add: page_def truthy_def)
  have 2: "fetch_page (collaborators_example 7)
      (url (page ''https://example.com/'' (Some ''Home'') None Ok None)) = Some ''<html></html>''"
    by (simp add: collaborators_example_def)
  have 3: "total_broken (validate_page_links (collaborators_example 7) ''<html></html>''
      (url (page ''https://example.com/'' (Some ''Home'') None Ok None))) = 7"
    by (simp add: collaborators_example_def broken_def)
  have 4: "broken_links_issue 7
      = ''7 broken links/obr'' @ [CHR 0xC3, CHR 0xA1] @ ''zk'' @ [CHR 0xC5, CHR 0xAF]"
    by code_simp
  show ?thesis
    using broken_links_escalate[OF 1 2 3, of "[''Home'']" "[]"] 4 by (simp add: page_def)
qed

text \<open>
  Claim C9. With link validation enabled, a page result whose \<open>error\<close> is set (a
  non-empty string, which is what \<open>if result.get('error')\<close> tests) is skipped: the step
  returns it as it is and makes no request, so in the list after the stage it is the
  same record as before, with the same \<open>issues\<close> and \<open>status\<close> and without the
  broken-link fields if it had none, and the duplicate warnings that follow do not add
  \<open>broken_links_count\<close> either. When link validation is skipped instead, every page
  gets \<open>broken_links_count = 0\<close>.
\<close>

theorem error_pages_skip_link_validation:
  "(truthy (error result) \<longrightarrow> validate_result c result = (result, []))
   \<and> (truthy (error result) \<longrightarrow>
        broken_links_count (warn_duplicates dts dds (fst (validate_result c result)))
          = broken_links_count result
        \<and> broken_links_detail (fst (validate_result c result)) = broken_links_detail result)
   \<and> (i < length rs \<and> truthy (error (rs ! i)) \<longrightarrow> fst (link_stage c False rs) ! i = rs ! i)
   \<and> (i < length rs \<longrightarrow> broken_links_count (fst (link_stage c True rs) ! i) = Some 0)"
proof -
  have skipped: "validate_result c result = (result, [])" if "truthy (error result)"
    using that by (simp add: validate_result_def)
  then have "broken_links_count (warn_duplicates dts dds (fst (validate_result c result)))
          = broken_links_count result" if "truthy (error result)"
    using that by (simp add: warn_duplicates_broken_links_count)
  moreover have "fst (link_stage c False rs) ! i = rs ! i"
    if "i < length rs" "truthy (error (rs ! i))"
    using that by (simp add: fst_link_stage validate_result_def)
  moreover have "broken_links_count (fst (link_stage c True rs) ! i) = Some 0" if "i < length rs"
    using that by (simp add: fst_link_stage)
  ultimately show ?thesis using skipped by auto
qed

text \<open>
  A page that timed out and a page that was fetched: with link validation the first is
  unchanged and has no \<open>broken_links_count\<close>, and only the second is re-fetched and
  validated; with \<open>--skip-links\<close> the first has the count 0.
\<close>

theorem error_pages_skip_link_validation_witness:
  "link_stage (collaborators_example 2) False
     [page ''https://example.com/a'' None None Error (Some ''timeout''),
      page ''https://example.com/b'' (Some ''Home'') None Ok None]
   = ([page ''https://example.com/a'' None None Error (Some ''timeout''),
       (page ''https://example.com/b'' (Some ''Home'') None Ok None)
         \<lparr>issues := [broken_links_issue 2], status := Warning,
          broken_links_count := Some 2, broken_links_detail := Some ([], [])\<rparr>],
      [LinkValidatorCreated, FetchPage ''https://example.com/b'',
       ValidatePageLinks ''<html></html>'' ''https://example.com/b''])
   \<and> broken_links_count (page ''https://example.com/a'' None None Error (Some ''timeout'')) = None
   \<and> broken_links_count (fst (link_stage (collaborators_example 2) True
        [page ''https://example.com/a'' None None Error (Some ''timeout''),
         page ''https://example.com/b'' (Some ''Home'') None Ok None]) ! 0) = Some 0"
  using error_pages_skip_link_validation
    [where result = "page ''https://example.com/a'' None None Error (Some ''timeout'')"
       and c = "collaborators_example 2" and i = 0 and dts = "[]" and dds = "[]"
       and rs = "[page ''https://example.com/a'' None None Error (Some ''timeout''),
          page ''https://example.com/b'' (Some ''Home'') None Ok None]"]
  by (simp add: link_stage_def validate_result_def record_broken_links_def escalate_ok_def
      truthy_def page_def collaborators_example_def broken_def)

section \<open>Skipping link validation\<close>

lemma link_stage_skip:
  "link_stage c True rs = (map (\<lambda>r. r\<lparr>broken_links_count := Some 0\<rparr>) rs, [])"
  by (simp add: link_stage_def)

lemma analyse_skip:
  "analyse c True urls = (report, events) \<Longrightarrow>
     list_all (\<lambda>r. broken_links_count r = Some 0) (final_results report)
     \<and> events = map ScrapeUrl urls"
  by (auto simp: analyse_def link_stage_skip Let_def add_duplicate_warnings_def list_all_iff
      warn_duplicates_broken_links_count split: prod.splits)

text \<open>
  Claim C7. When \<open>args.skip_links\<close> is set and the run reaches the export, every page
  result of the final list has \<open>broken_links_count = 0\<close>, and the run has no event of
  the link stage: no \<open>LinkValidator\<close> is created, no page is re-fetched and
  \<open>validate_page_links\<close> is never called. The stage itself, on any list, returns the
  count 0 everywhere and no event.
\<close>

theorem skip_links_never_validates:
  assumes "args_skip_links a" and "main w c a = (Exported report, events)"
  shows "list_all (\<lambda>r. broken_links_count r = Some 0) (final_results report)
     \<and> filter link_event events = []
     \<and> snd (link_stage c True rs) = []
     \<and> list_all (\<lambda>r. broken_links_count r = Some 0) (fst (link_stage c True rs))"
proof -
  from assms obtain urls where "analyse c True urls = (report, events)"
    by (auto simp: main_def Let_def split: if_splits sum.splits prod.splits)
  from analyse_skip[OF this] show ?thesis
    by (auto simp: link_stage_skip filter_empty_conv list_all_iff)
qed

text \<open>
  A site with two pages, analysed with \<open>--skip-links\<close>: both results have the count 0
  and the only events are the two calls of \<open>scrape_url\<close>.
\<close>

theorem skip_links_never_validates_witness:
  "main (site [(''https://example.com/sitemap.xml'',
                urlset [''https://example.com/b'', ''https://example.com/a''])])
      (collaborators_example 7)
      \<lparr>args_url = ''https://example.com/'', args_skip_links = True, args_limit = None\<rparr>
   = (Exported
       \<lparr>final_results =
          [(page ''https://example.com/a'' (Some ''Home'') None Ok None)
             \<lparr>issues := [duplicate_title_issue ''Home''], status := Warning,
              broken_links_count := Some 0\<rparr>,
           (page ''https://example.com/b'' (Some ''Home'') None Ok None)
             \<lparr>issues := [duplicate_title_issue ''Home''], status := Warning,
              broken_links_count := Some 0\<rparr>],
        final_duplicate_titles = [''Home''], final_duplicate_descriptions = []\<rparr>,
      [ScrapeUrl ''https://example.com/a'', ScrapeUrl ''https://example.com/b''])
   \<and> filter link_event [ScrapeUrl ''https://example.com/a'', ScrapeUrl ''https://example.com/b'']
       = []"
proof -
  have run: "main (site [(''https://example.com/sitemap.xml'',
                urlset [''https://example.com/b'', ''https://example.com/a''])])
      (collaborators_example 7)
      \<lparr>args_url = ''https://example.com/'', args_skip_links = True, args_limit = None\<rparr>
   = (Exported
       \<lparr>final_results =
          [(page ''https://example.com/a'' (Some ''Home'') None Ok None)
             \<lparr>issues := [duplicate_title_issue ''Home''], status := Warning,
              broken_links_count := Some 0\<rparr>,
           (page ''https://example.com/b'' (Some ''Home'') None Ok None)
             \<lparr>issues := [duplicate_title_issue ''Home''], status := Warning,
              broken_links_count := Some 0\<rparr>],
        final_duplicate_titles = [''Home''], final_duplicate_descriptions = []\<rparr>,
      [ScrapeUrl ''https://example.com/a'', ScrapeUrl ''https://example.com/b''])"
    by code_simp
  have skip: "args_skip_links
      \<lparr>args_url = ''https://example.com/'', args_skip_links = True, args_limit = None\<rparr>"
    by simp
  from skip_links_never_validates[OF skip run, of "[]"] run show ?thesis by simp
qed

end
